theory Spec2Isabelle
  imports Complex_Main "HOL-Library.Sublist" "HOL-Library.Multiset"
begin

section \<open>Data model (src/src/types/index.ts)\<close>

text \<open>
  The interfaces of the application become records. A \<^verbatim>\<open>Date\<close> is its time value
  (milliseconds since the epoch) as an \<^typ>\<open>int\<close>; \<^verbatim>\<open>Date | null\<close> is an option.
  A JavaScript string is the list of bytes of its UTF-8 encoding, so that template
  literals and \<^verbatim>\<open>+=\<close> are list append. \<^verbatim>\<open>Task\<close> and \<^verbatim>\<open>Category\<close> share field
  names (\<^verbatim>\<open>id\<close>, \<^verbatim>\<open>description\<close>, \<^verbatim>\<open>createdAt\<close>), so the fields carry the prefix of
  their interface: \<^verbatim>\<open>task.id\<close> is \<open>task_id\<close>, \<^verbatim>\<open>category.id\<close> is \<open>cat_id\<close>.
\<close>

datatype Priority = High | Medium | Low

datatype Status = Todo | InProgress | Completed

record Task =
  task_id :: string
  task_title :: string
  task_description :: string
  task_priority :: Priority
  task_category :: string
  task_status :: Status
  task_completionComment :: string
  task_createdAt :: int
  task_updatedAt :: int
  task_completedAt :: "int option"
  task_order :: int
  task_tags :: "string list"

text \<open>\<^verbatim>\<open>CreateTaskInput = Omit<Task, 'id' | 'createdAt' | 'updatedAt' | 'completedAt' | 'order'>\<close>\<close>

record CreateTaskInput =
  ci_title :: string
  ci_description :: string
  ci_priority :: Priority
  ci_category :: string
  ci_status :: Status
  ci_completionComment :: string
  ci_tags :: "string list"

text \<open>
  \<^verbatim>\<open>UpdateTaskInput = Partial<Omit<Task, 'id' | 'createdAt'>>\<close>: every field may be
  absent (\<open>None\<close>). A present \<^verbatim>\<open>completedAt\<close> is itself \<^verbatim>\<open>Date | null\<close>.
\<close>

record UpdateTaskInput =
  up_title :: "string option"
  up_description :: "string option"
  up_priority :: "Priority option"
  up_category :: "string option"
  up_status :: "Status option"
  up_completionComment :: "string option"
  up_updatedAt :: "int option"
  up_completedAt :: "int option option"
  up_order :: "int option"
  up_tags :: "string list option"

record Category =
  cat_id :: string
  cat_name :: string
  cat_color :: string
  cat_description :: "string option"
  cat_createdAt :: int
  cat_taskCount :: nat

datatype Theme = Light | Dark

datatype SortBy = SortCreatedAt | SortPriority | SortTitle | SortDueDate

datatype SortOrder = Asc | Desc

record Notifications =
  enabled :: bool
  reminderTime :: int

record Settings =
  theme :: Theme
  defaultPriority :: Priority
  sortBy :: SortBy
  sortOrder :: SortOrder
  showCompleted :: bool
  autoSave :: bool
  notifications :: Notifications

record PartialSettings =
  ps_theme :: "Theme option"
  ps_defaultPriority :: "Priority option"
  ps_sortBy :: "SortBy option"
  ps_sortOrder :: "SortOrder option"
  ps_showCompleted :: "bool option"
  ps_autoSave :: "bool option"
  ps_notifications :: "Notifications option"

text \<open>
  \<^verbatim>\<open>Task['status'] | 'all'\<close> and \<^verbatim>\<open>Task['priority'] | 'all'\<close> are a choice between
  \<^verbatim>\<open>'all'\<close> and one value. The category filter is \<^verbatim>\<open>string | 'all'\<close>, which is a
  plain string compared with \<^verbatim>\<open>'all'\<close>.
\<close>

datatype 'a OrAll = All | Only 'a

record Filter =
  f_status :: "Status OrAll"
  f_category :: string
  f_priority :: "Priority OrAll"
  f_searchQuery :: string

record PartialFilter =
  pf_status :: "Status OrAll option"
  pf_category :: "string option"
  pf_priority :: "Priority OrAll option"
  pf_searchQuery :: "string option"

record UIState =
  isTaskFormOpen :: bool
  isCategoryManagerOpen :: bool
  editingTask :: "Task option"
  ui_filter :: Filter

record PartialUIState =
  pu_isTaskFormOpen :: "bool option"
  pu_isCategoryManagerOpen :: "bool option"
  pu_editingTask :: "Task option option"
  pu_filter :: "Filter option"

section \<open>Application state and reducer (src/src/context/TodoContext.tsx)\<close>

record AppState =
  tasks :: "Task list"
  categories :: "Category list"
  settings :: Settings
  ui :: UIState

datatype AppAction =
    SET_TASKS "Task list"
  | ADD_TASK Task
  | UPDATE_TASK string UpdateTaskInput
  | DELETE_TASK string
  | REORDER_TASKS "Task list"
  | UPDATE_TASK_STATUS string Status "string option"
  | SET_CATEGORIES "Category list"
  | ADD_CATEGORY Category
  | UPDATE_CATEGORY Category
  | DELETE_CATEGORY string
  | SET_SETTINGS Settings
  | UPDATE_SETTINGS PartialSettings
  | SET_UI_STATE PartialUIState
  | OPEN_TASK_FORM "Task option"
  | CLOSE_TASK_FORM
  | OPEN_CATEGORY_MANAGER
  | CLOSE_CATEGORY_MANAGER
  | SET_FILTER PartialFilter

text \<open>
  The object spread \<^verbatim>\<open>{ ...task, ...updates }\<close>: a field present in the second object
  replaces the field of the first.
\<close>

definition spread :: "'a \<Rightarrow> 'a option \<Rightarrow> 'a" where
  "spread old new = (case new of None \<Rightarrow> old | Some v \<Rightarrow> v)"

text \<open>\<^verbatim>\<open>{ ...task, ...action.payload.updates, updatedAt: new Date() }\<close>\<close>

definition applyUpdates :: "int \<Rightarrow> Task \<Rightarrow> UpdateTaskInput \<Rightarrow> Task" where
  "applyUpdates now task updates =
     task\<lparr> task_title := spread (task_title task) (up_title updates),
           task_description := spread (task_description task) (up_description updates),
           task_priority := spread (task_priority task) (up_priority updates),
           task_category := spread (task_category task) (up_category updates),
           task_status := spread (task_status task) (up_status updates),
           task_completionComment :=
             spread (task_completionComment task) (up_completionComment updates),
           task_completedAt := spread (task_completedAt task) (up_completedAt updates),
           task_order := spread (task_order task) (up_order updates),
           task_tags := spread (task_tags task) (up_tags updates),
           task_updatedAt := now \<rparr>"

text \<open>
  The task written by the \<^verbatim>\<open>UPDATE_TASK_STATUS\<close> case. The payload's
  \<^verbatim>\<open>completionComment\<close> is optional; \<^verbatim>\<open>action.payload.completionComment || ''\<close> is the
  empty string when it is absent (or empty).
\<close>

definition orEmpty :: "string option \<Rightarrow> string" where
  "orEmpty c = (case c of None \<Rightarrow> [] | Some s \<Rightarrow> s)"

definition applyStatus :: "int \<Rightarrow> Status \<Rightarrow> string option \<Rightarrow> Task \<Rightarrow> Task" where
  "applyStatus now st comment task =
     task\<lparr> task_status := st,
           task_completionComment :=
             (if st = Completed then orEmpty comment else task_completionComment task),
           task_completedAt := (if st = Completed then Some now else None),
           task_updatedAt := now \<rparr>"

definition patchSettings :: "Settings \<Rightarrow> PartialSettings \<Rightarrow> Settings" where
  "patchSettings s p =
     \<lparr> theme = spread (theme s) (ps_theme p),
       defaultPriority = spread (defaultPriority s) (ps_defaultPriority p),
       sortBy = spread (sortBy s) (ps_sortBy p),
       sortOrder = spread (sortOrder s) (ps_sortOrder p),
       showCompleted = spread (showCompleted s) (ps_showCompleted p),
       autoSave = spread (autoSave s) (ps_autoSave p),
       notifications = spread (notifications s) (ps_notifications p) \<rparr>"

definition patchUI :: "UIState \<Rightarrow> PartialUIState \<Rightarrow> UIState" where
  "patchUI u p =
     \<lparr> isTaskFormOpen = spread (isTaskFormOpen u) (pu_isTaskFormOpen p),
       isCategoryManagerOpen = spread (isCategoryManagerOpen u) (pu_isCategoryManagerOpen p),
       editingTask = spread (editingTask u) (pu_editingTask p),
       ui_filter = spread (ui_filter u) (pu_filter p) \<rparr>"

definition patchFilter :: "Filter \<Rightarrow> PartialFilter \<Rightarrow> Filter" where
  "patchFilter f p =
     \<lparr> f_status = spread (f_status f) (pf_status p),
       f_category = spread (f_category f) (pf_category p),
       f_priority = spread (f_priority f) (pf_priority p),
       f_searchQuery = spread (f_searchQuery f) (pf_searchQuery p) \<rparr>"

text \<open>
  \<^verbatim>\<open>appReducer(state, action)\<close>. The first argument is the value \<^verbatim>\<open>new Date()\<close> reads
  during the call; the reads of one call are taken to give the same value. The action
  type is closed, so the \<^verbatim>\<open>default\<close> branch, which returns the state, is not reachable
  from a typed caller.
\<close>

fun appReducer :: "int \<Rightarrow> AppState \<Rightarrow> AppAction \<Rightarrow> AppState" where
  "appReducer now state (SET_TASKS payload) = state\<lparr> tasks := payload \<rparr>"
| "appReducer now state (ADD_TASK payload) = state\<lparr> tasks := tasks state @ [payload] \<rparr>"
| "appReducer now state (UPDATE_TASK ident updates) =
     state\<lparr> tasks := map (\<lambda>task. if task_id task = ident
                                   then applyUpdates now task updates else task)
                           (tasks state) \<rparr>"
| "appReducer now state (DELETE_TASK payload) =
     state\<lparr> tasks := filter (\<lambda>task. task_id task \<noteq> payload) (tasks state) \<rparr>"
| "appReducer now state (REORDER_TASKS payload) = state\<lparr> tasks := payload \<rparr>"
| "appReducer now state (UPDATE_TASK_STATUS ident st comment) =
     state\<lparr> tasks := map (\<lambda>task. if task_id task = ident
                                   then applyStatus now st comment task else task)
                           (tasks state) \<rparr>"
| "appReducer now state (SET_CATEGORIES payload) = state\<lparr> categories := payload \<rparr>"
| "appReducer now state (ADD_CATEGORY payload) =
     state\<lparr> categories := categories state @ [payload] \<rparr>"
| "appReducer now state (UPDATE_CATEGORY payload) =
     state\<lparr> categories := map (\<lambda>category. if cat_id category = cat_id payload
                                            then payload else category)
                                (categories state) \<rparr>"
| "appReducer now state (DELETE_CATEGORY payload) =
     state\<lparr> categories := filter (\<lambda>category. cat_id category \<noteq> payload)
                                   (categories state) \<rparr>"
| "appReducer now state (SET_SETTINGS payload) = state\<lparr> settings := payload \<rparr>"
| "appReducer now state (UPDATE_SETTINGS payload) =
     state\<lparr> settings := patchSettings (settings state) payload \<rparr>"
| "appReducer now state (SET_UI_STATE payload) = state\<lparr> ui := patchUI (ui state) payload \<rparr>"
| "appReducer now state (OPEN_TASK_FORM payload) =
     state\<lparr> ui := (ui state)\<lparr> isTaskFormOpen := True, editingTask := payload \<rparr> \<rparr>"
| "appReducer now state CLOSE_TASK_FORM =
     state\<lparr> ui := (ui state)\<lparr> isTaskFormOpen := False, editingTask := None \<rparr> \<rparr>"
| "appReducer now state OPEN_CATEGORY_MANAGER =
     state\<lparr> ui := (ui state)\<lparr> isCategoryManagerOpen := True \<rparr> \<rparr>"
| "appReducer now state CLOSE_CATEGORY_MANAGER =
     state\<lparr> ui := (ui state)\<lparr> isCategoryManagerOpen := False \<rparr> \<rparr>"
| "appReducer now state (SET_FILTER payload) =
     state\<lparr> ui := (ui state)\<lparr> ui_filter := patchFilter (ui_filter (ui state)) payload \<rparr> \<rparr>"

text \<open>
  Actions dispatched one after the other are reduced in order, each call reading the
  clock for itself: the \<open>k\<close>-th call reads \<open>clock k\<close>.
\<close>

fun dispatchAll :: "(nat \<Rightarrow> int) \<Rightarrow> nat \<Rightarrow> AppState \<Rightarrow> AppAction list \<Rightarrow> AppState" where
  "dispatchAll clock k state [] = state"
| "dispatchAll clock k state (a # as) = dispatchAll clock (Suc k) (appReducer (clock k) state a) as"

section \<open>Task creation (src/src/types/index.ts)\<close>

text \<open>
  \<^verbatim>\<open>createTask(input)\<close> spreads the input and adds the generated fields. The token
  returned by \<^verbatim>\<open>crypto.randomUUID()\<close> and the clock reading are arguments.
\<close>

definition createTask :: "string \<Rightarrow> int \<Rightarrow> CreateTaskInput \<Rightarrow> Task" where
  "createTask uuid now input =
     \<lparr> task_id = uuid,
       task_title = ci_title input,
       task_description = ci_description input,
       task_priority = ci_priority input,
       task_category = ci_category input,
       task_status = ci_status input,
       task_completionComment = ci_completionComment input,
       task_createdAt = now,
       task_updatedAt = now,
       task_completedAt = None,
       task_order = now,
       task_tags = ci_tags input \<rparr>"

section \<open>Storage hooks (useTaskStorage, useCategoryStorage)\<close>

text \<open>
  Each storage operation hands \<^verbatim>\<open>setTasks\<close> or \<^verbatim>\<open>setCategories\<close> an updater of the
  stored list; the functions below are these updaters. A parameter with the default
  \<^verbatim>\<open>completionComment = ''\<close> is an optional argument read through \<open>orEmpty\<close>.
\<close>

definition updateTaskStatus :: "int \<Rightarrow> string \<Rightarrow> Status \<Rightarrow> string option \<Rightarrow> Task list \<Rightarrow> Task list" where
  "updateTaskStatus now taskId st completionComment currentTasks =
     map (\<lambda>task. if task_id task = taskId
                  then task\<lparr> task_status := st,
                             task_completionComment :=
                               (if st = Completed then orEmpty completionComment
                                else task_completionComment task),
                             task_completedAt := (if st = Completed then Some now else None),
                             task_updatedAt := now \<rparr>
                  else task)
         currentTasks"

definition reorderTasks :: "int \<Rightarrow> Task list \<Rightarrow> Task list" where
  "reorderTasks now reorderedTasks =
     map (\<lambda>(index, task). task\<lparr> task_order := int index, task_updatedAt := now \<rparr>)
         (enumerate 0 reorderedTasks)"

definition deleteCategoryFromStorage :: "string \<Rightarrow> Category list \<Rightarrow> Category list" where
  "deleteCategoryFromStorage categoryId currentCategories =
     (if categoryId = ''default'' then currentCategories
      else filter (\<lambda>category. cat_id category \<noteq> categoryId) currentCategories)"

section \<open>Category operations (useCategories)\<close>

text \<open>
  \<^verbatim>\<open>deleteCategory\<close> of \<^verbatim>\<open>useCategories\<close> works on the application state and on the
  stored category list. It throws for the reserved category before anything is
  dispatched; the result pairs the error, if any, with the state left behind.
\<close>

record World =
  app :: AppState
  storedCategories :: "Category list"

datatype error = DefaultCategoryNotDeletable

definition noUpdates :: UpdateTaskInput where
  "noUpdates =
     \<lparr> up_title = None, up_description = None, up_priority = None, up_category = None,
       up_status = None, up_completionComment = None, up_updatedAt = None,
       up_completedAt = None, up_order = None, up_tags = None \<rparr>"

text \<open>The action the loop dispatches for a task of the deleted category.\<close>

definition moveToDefault :: "Task \<Rightarrow> AppAction" where
  "moveToDefault task =
     UPDATE_TASK (task_id task) (noUpdates\<lparr> up_category := Some ''default'' \<rparr>)"

definition deleteCategory :: "(nat \<Rightarrow> int) \<Rightarrow> string \<Rightarrow> World \<Rightarrow> error option \<times> World" where
  "deleteCategory clock ident w =
     (if ident = ''default'' then (Some DefaultCategoryNotDeletable, w)
      else
        let tasksToUpdate = filter (\<lambda>task. task_category task = ident) (tasks (app w));
            moves = map moveToDefault tasksToUpdate;
            stored = deleteCategoryFromStorage ident (storedCategories w)
        in (None, \<lparr> app = dispatchAll clock 0 (app w) (moves @ [DELETE_CATEGORY ident]),
                    storedCategories = stored \<rparr>))"

section \<open>Numbers of the platform\<close>

text \<open>
  The progress report divides and multiplies JavaScript numbers. The values that occur
  there are the non-negative binary64 numbers, \<^verbatim>\<open>Infinity\<close> and \<^verbatim>\<open>NaN\<close>. A finite
  number is the rational it denotes; \<open>roundDouble\<close> rounds a non-negative rational to
  the nearest binary64 value, ties to even, with gradual underflow and overflow to
  \<^verbatim>\<open>Infinity\<close>: the result is the multiple of the unit in the last place of the
  operand's binade (53 significant bits, exponent at least \<open>-1022\<close>) nearest to it.
\<close>

datatype jsnum = Num rat | PosInf | NaN

function bitLength :: "int \<Rightarrow> int" where
  "bitLength n = (if n \<le> 0 then 0 else 1 + bitLength (n div 2))"
  by pat_completeness auto
termination
  by (relation "measure nat") auto

declare bitLength.simps [simp del]

definition roundTiesEven :: "rat \<Rightarrow> int" where
  "roundTiesEven q =
     (let f = \<lfloor>q\<rfloor>; d = q - of_int f
      in if d < 1 / 2 then f else if 1 / 2 < d then f + 1 else if even f then f else f + 1)"

definition floorLog2 :: "rat \<Rightarrow> int" where
  "floorLog2 q =
     (let (n, d) = quotient_of q;
          k = bitLength n - bitLength d
      in if power_int 2 k \<le> q then k else k - 1)"

definition roundDouble :: "rat \<Rightarrow> jsnum" where
  "roundDouble q =
     (if q = 0 then Num 0
      else
        let e = max (floorLog2 q) (- 1022);
            ulp = power_int 2 (e - 52);
            r = of_int (roundTiesEven (q / ulp)) * ulp
        in if 2 ^ 1024 \<le> r then PosInf else Num r)"

text \<open>\<^verbatim>\<open>a / b\<close> for finite non-negative operands.\<close>

definition fdiv :: "rat \<Rightarrow> rat \<Rightarrow> jsnum" where
  "fdiv a b = (if b = 0 then (if a = 0 then NaN else PosInf) else roundDouble (a / b))"

text \<open>\<^verbatim>\<open>x * c\<close> for a finite positive constant \<open>c\<close>.\<close>

definition fmul :: "jsnum \<Rightarrow> rat \<Rightarrow> jsnum" where
  "fmul x c = (case x of Num a \<Rightarrow> roundDouble (a * c) | PosInf \<Rightarrow> PosInf | NaN \<Rightarrow> NaN)"

text \<open>\<^verbatim>\<open>Math.round\<close>: the nearest integer, a tie going up.\<close>

definition mathRound :: "jsnum \<Rightarrow> jsnum" where
  "mathRound x = (case x of Num a \<Rightarrow> Num (of_int \<lfloor>a + 1 / 2\<rfloor>) | PosInf \<Rightarrow> PosInf | NaN \<Rightarrow> NaN)"

section \<open>Library functions of the platform\<close>

text \<open>
  The string functions whose result depends on the locale and on Unicode tables, and
  the conversion of a number to a string, are arguments of the model:
  \<^verbatim>\<open>String.prototype.localeCompare\<close>, \<^verbatim>\<open>toLowerCase\<close>, \<^verbatim>\<open>trim\<close> and
  \<^verbatim>\<open>Number::toString\<close>.
\<close>

record Platform =
  localeCompare :: "string \<Rightarrow> string \<Rightarrow> int"
  toLowerCase :: "string \<Rightarrow> string"
  trim :: "string \<Rightarrow> string"
  numberToString :: "jsnum \<Rightarrow> string"

text \<open>\<^verbatim>\<open>s.includes(q)\<close>: \<open>q\<close> occurs in \<open>s\<close> as a contiguous run.\<close>

definition includesStr :: "string \<Rightarrow> string \<Rightarrow> bool" where
  "includesStr s q = sublist q s"

text \<open>\<^verbatim>\<open>xs.join(sep)\<close>\<close>

fun join :: "string \<Rightarrow> string list \<Rightarrow> string" where
  "join sep [] = []"
| "join sep [x] = x"
| "join sep (x # y # ys) = x @ sep @ join sep (y # ys)"

text \<open>
  \<^verbatim>\<open>Array.prototype.sort(compare)\<close> is stable, and for a consistent comparator it returns
  the sorted arrangement, which stability makes unique (this is proved below).
  Insertion from the right computes it: an element moves behind the elements it
  compares greater than, and stays in front of those it compares equal to.
\<close>

fun insertSorted :: "('a \<Rightarrow> 'a \<Rightarrow> int) \<Rightarrow> 'a \<Rightarrow> 'a list \<Rightarrow> 'a list" where
  "insertSorted compare x [] = [x]"
| "insertSorted compare x (y # ys) =
     (if compare x y \<le> 0 then x # y # ys else y # insertSorted compare x ys)"

definition arraySort :: "('a \<Rightarrow> 'a \<Rightarrow> int) \<Rightarrow> 'a list \<Rightarrow> 'a list" where
  "arraySort compare xs = foldr (insertSorted compare) xs []"

section \<open>Derived view (useFilteredTasks)\<close>

definition priorityOrder :: "Priority \<Rightarrow> int" where
  "priorityOrder p = (case p of High \<Rightarrow> 3 | Medium \<Rightarrow> 2 | Low \<Rightarrow> 1)"

text \<open>
  The comparator handed to \<^verbatim>\<open>sort\<close>. \<^verbatim>\<open>'dueDate'\<close> has no case of its own and takes
  the \<^verbatim>\<open>default\<close> branch, which compares the \<^verbatim>\<open>order\<close> fields.
\<close>

definition compareTasks :: "Platform \<Rightarrow> Settings \<Rightarrow> Task \<Rightarrow> Task \<Rightarrow> int" where
  "compareTasks P s a b =
     (let comparison =
            (case sortBy s of
               SortTitle \<Rightarrow> localeCompare P (task_title a) (task_title b)
             | SortPriority \<Rightarrow> priorityOrder (task_priority b) - priorityOrder (task_priority a)
             | SortCreatedAt \<Rightarrow> task_createdAt b - task_createdAt a
             | SortDueDate \<Rightarrow> task_order a - task_order b)
      in if sortOrder s = Desc then comparison else - comparison)"

definition matchesQuery :: "Platform \<Rightarrow> string \<Rightarrow> Task \<Rightarrow> bool" where
  "matchesQuery P query task =
     (includesStr (toLowerCase P (task_title task)) query \<or>
      includesStr (toLowerCase P (task_description task)) query \<or>
      list_ex (\<lambda>tag. includesStr (toLowerCase P tag) query) (task_tags task))"

text \<open>
  The body of the \<^verbatim>\<open>useMemo\<close>, a function of its dependencies \<^verbatim>\<open>tasks\<close>,
  \<^verbatim>\<open>filter\<close> and \<^verbatim>\<open>state.settings\<close>. A string is truthy when it is not empty.
\<close>

definition filteredTasks :: "Platform \<Rightarrow> Filter \<Rightarrow> Settings \<Rightarrow> Task list \<Rightarrow> Task list" where
  "filteredTasks P flt s ts =
     (let byStatus = (case f_status flt of
                        All \<Rightarrow> ts
                      | Only st \<Rightarrow> filter (\<lambda>task. task_status task = st) ts);
          byCategory = (if f_category flt \<noteq> ''all''
                        then filter (\<lambda>task. task_category task = f_category flt) byStatus
                        else byStatus);
          byPriority = (case f_priority flt of
                          All \<Rightarrow> byCategory
                        | Only p \<Rightarrow> filter (\<lambda>task. task_priority task = p) byCategory);
          bySearch = (if trim P (f_searchQuery flt) \<noteq> []
                      then filter (matchesQuery P (toLowerCase P (f_searchQuery flt))) byPriority
                      else byPriority);
          visible = (if \<not> showCompleted s
                     then filter (\<lambda>task. task_status task \<noteq> Completed) bySearch
                     else bySearch)
      in arraySort (compareTasks P s) visible)"

section \<open>Share formatter (src/src/hooks/useTwitterShare.ts)\<close>

text \<open>The entries of \<^verbatim>\<open>statusConfig\<close>, as UTF-8.\<close>

definition statusEmoji :: "Status \<Rightarrow> string" where
  "statusEmoji st =
     (case st of
        Todo \<Rightarrow> [CHR 0xF0, CHR 0x9F, CHR 0x93, CHR 0x9D]
      | InProgress \<Rightarrow> [CHR 0xE2, CHR 0x9A, CHR 0xA1]
      | Completed \<Rightarrow> [CHR 0xE2, CHR 0x9C, CHR 0x85])"

definition statusLabel :: "Status \<Rightarrow> string" where
  "statusLabel st =
     (case st of
        Todo \<Rightarrow> [CHR 0xE6, CHR 0x9C, CHR 0xAA, CHR 0xE5, CHR 0xAE, CHR 0x9F, CHR 0xE8, CHR 0xA1, CHR 0x8C]
      | InProgress \<Rightarrow> [CHR 0xE5, CHR 0xAE, CHR 0x9F, CHR 0xE8, CHR 0xA1, CHR 0x8C, CHR 0xE4, CHR 0xB8, CHR 0xAD]
      | Completed \<Rightarrow> [CHR 0xE5, CHR 0xAE, CHR 0x8C, CHR 0xE4, CHR 0xBA, CHR 0x86])"

text \<open>The application hashtags \<^verbatim>\<open>' #TodoApp #...'\<close> appended to every shared task.\<close>

definition appHashtags :: string where
  "appHashtags = '' #TodoApp #'' @
     [CHR 0xE7, CHR 0x94, CHR 0x9F, CHR 0xE7, CHR 0x94, CHR 0xA3, CHR 0xE6, CHR 0x80, CHR 0xA7,
      CHR 0xE5, CHR 0x90, CHR 0x91, CHR 0xE4, CHR 0xB8, CHR 0x8A]"

text \<open>The line break pair and thought balloon that open the comment line.\<close>

definition commentLead :: string where
  "commentLead = [CHR 0x0A, CHR 0x0A, CHR 0xF0, CHR 0x9F, CHR 0x92, CHR 0xAD, CHR '' '']"

definition formatTaskForShare :: "Task \<Rightarrow> string" where
  "formatTaskForShare task =
     (let text0 = statusEmoji (task_status task) @ '' '' @ task_title task @ '' - '' @
                  statusLabel (task_status task);
          text1 = (if length (task_tags task) > 0
                   then text0 @ [CHR 0x0A, CHR 0x0A] @
                        join '' '' (map (\<lambda>tag. ''#'' @ tag) (task_tags task))
                   else text0);
          text2 = (if task_status task = Completed \<and> task_completionComment task \<noteq> []
                   then text1 @ commentLead @ task_completionComment task
                   else text1)
      in text2 @ appHashtags)"

text \<open>
  \<^verbatim>\<open>formatProgressReport\<close>: the rate is computed on numbers of the platform, and the
  four numbers are interpolated by \<^verbatim>\<open>Number::toString\<close>.
\<close>

definition completionRate :: "nat \<Rightarrow> nat \<Rightarrow> jsnum" where
  "completionRate totalTasks completedTasks =
     (if totalTasks > 0
      then mathRound (fmul (fdiv (of_nat completedTasks) (of_nat totalTasks)) 100)
      else Num 0)"







section \<open>The invariant of the task list\<close>

text \<open>
  The data model's invariant, in its own words: \<^verbatim>\<open>completedAt\<close> is non-null if and only
  if the status is \<^verbatim>\<open>completed\<close>.
\<close>

definition taskInvariant :: "Task \<Rightarrow> bool" where
  "taskInvariant task = ((task_completedAt task \<noteq> None) = (task_status task = Completed))"

definition stateInvariant :: "AppState \<Rightarrow> bool" where
  "stateInvariant state = list_all taskInvariant (tasks state)"

text \<open>
  What an action must bring for the reducer to keep the invariant: task payloads that
  satisfy it, and for \<^verbatim>\<open>UPDATE_TASK\<close> updates that either leave \<^verbatim>\<open>status\<close> and
  \<^verbatim>\<open>completedAt\<close> alone or set the two together, in agreement.
\<close>

fun payloadKeepsInvariant :: "AppAction \<Rightarrow> bool" where
  "payloadKeepsInvariant (SET_TASKS payload) = list_all taskInvariant payload"
| "payloadKeepsInvariant (ADD_TASK payload) = taskInvariant payload"
| "payloadKeepsInvariant (REORDER_TASKS payload) = list_all taskInvariant payload"
| "payloadKeepsInvariant (UPDATE_TASK ident updates) =
     (case (up_status updates, up_completedAt updates) of
        (None, None) \<Rightarrow> True
      | (Some st, Some c) \<Rightarrow> (c \<noteq> None) = (st = Completed)
      | _ \<Rightarrow> False)"
| "payloadKeepsInvariant _ = True"

section \<open>Concrete states and inputs\<close>

text \<open>\<^verbatim>\<open>initialUIState\<close> and \<^verbatim>\<open>initialState\<close> of TodoContext.tsx.\<close>

definition initialUIState :: UIState where
  "initialUIState =
     \<lparr> isTaskFormOpen = False, isCategoryManagerOpen = False, editingTask = None,
       ui_filter = \<lparr> f_status = All, f_category = ''all'', f_priority = All,
                     f_searchQuery = [] \<rparr> \<rparr>"

definition initialState :: AppState where
  "initialState =
     \<lparr> tasks = [], categories = [],
       settings = \<lparr> theme = Light, defaultPriority = Medium, sortBy = SortCreatedAt,
                    sortOrder = Desc, showCompleted = True, autoSave = True,
                    notifications = \<lparr> enabled = False, reminderTime = 60 \<rparr> \<rparr>,
       ui = initialUIState \<rparr>"

text \<open>
  The input \<^verbatim>\<open>handleSubmit\<close> of the task form builds, for a new task and for an edited
  one alike: the form's fields, \<^verbatim>\<open>status: 'todo'\<close> and \<^verbatim>\<open>completionComment: ''\<close>.
\<close>

definition formInput :: "string \<Rightarrow> string \<Rightarrow> Priority \<Rightarrow> string \<Rightarrow> string list \<Rightarrow> CreateTaskInput" where
  "formInput title description priority category tags =
     \<lparr> ci_title = title, ci_description = description, ci_priority = priority,
       ci_category = category, ci_status = Todo, ci_completionComment = [],
       ci_tags = tags \<rparr>"

text \<open>
  \<^verbatim>\<open>updateTask(task.id, taskData)\<close> passes that \<^verbatim>\<open>CreateTaskInput\<close> as the updates of
  \<^verbatim>\<open>UPDATE_TASK\<close>: its seven fields are present, the others absent.
\<close>

definition asUpdates :: "CreateTaskInput \<Rightarrow> UpdateTaskInput" where
  "asUpdates input =
     \<lparr> up_title = Some (ci_title input), up_description = Some (ci_description input),
       up_priority = Some (ci_priority input), up_category = Some (ci_category input),
       up_status = Some (ci_status input),
       up_completionComment = Some (ci_completionComment input),
       up_updatedAt = None, up_completedAt = None, up_order = None,
       up_tags = Some (ci_tags input) \<rparr>"

text \<open>A task as \<^verbatim>\<open>createTask\<close> makes it from the form, and the same task completed.\<close>

definition reportTask :: Task where
  "reportTask = createTask ''7f3c'' 1000 (formInput ''Report'' [] Medium ''default'' [''work''])"

definition reportDone :: Task where
  "reportDone = applyStatus 2000 Completed (Some ''done early'') reportTask"

text \<open>The two tasks of the sorting example, their remaining fields as the form fills them.\<close>

definition taskA :: Task where
  "taskA = (createTask ''a1'' 10 (formInput ''A'' [] Low ''default'' []))\<lparr> task_order := 0 \<rparr>"

definition taskB :: Task where
  "taskB = (createTask ''b2'' 20 (formInput ''B'' [] High ''default'' []))\<lparr> task_order := 1 \<rparr>"

text \<open>
  The category \<^verbatim>\<open>useCategoryStorage\<close> starts with (its name and description are
  Japanese text, given as UTF-8), and a category a user adds.
\<close>

definition defaultCategory :: Category where
  "defaultCategory =
     \<lparr> cat_id = ''default'',
       cat_name = [CHR 0xE6, CHR 0x9C, CHR 0xAA, CHR 0xE5, CHR 0x88, CHR 0x86, CHR 0xE9, CHR 0xA1,
                   CHR 0x9E],
       cat_color = ''#a4b0be'',
       cat_description =
         Some [CHR 0xE3, CHR 0x83, CHR 0x87, CHR 0xE3, CHR 0x83, CHR 0x95, CHR 0xE3, CHR 0x82,
               CHR 0xA9, CHR 0xE3, CHR 0x83, CHR 0xAB, CHR 0xE3, CHR 0x83, CHR 0x88, CHR 0xE3,
               CHR 0x82, CHR 0xAB, CHR 0xE3, CHR 0x83, CHR 0x86, CHR 0xE3, CHR 0x82, CHR 0xB4,
               CHR 0xE3, CHR 0x83, CHR 0xAA, CHR 0xE3, CHR 0x83, CHR 0xBC],
       cat_createdAt = 0,
       cat_taskCount = 0 \<rparr>"

definition workCategory :: Category where
  "workCategory =
     \<lparr> cat_id = ''c-work'', cat_name = ''Work'', cat_color = ''#3742fa'',
       cat_description = None, cat_createdAt = 5, cat_taskCount = 2 \<rparr>"

text \<open>
  A state with two tasks in the added category and one in the reserved one, and the
  stored category list beside it.
\<close>

definition workWorld :: World where
  "workWorld =
     \<lparr> app = initialState
               \<lparr> tasks := [taskA\<lparr> task_category := ''c-work'' \<rparr>, taskB,
                            reportDone\<lparr> task_category := ''c-work'' \<rparr>],
                 categories := [defaultCategory, workCategory] \<rparr>,
       storedCategories = [defaultCategory, workCategory] \<rparr>"

section \<open>Properties of the derived view, as predicates\<close>

text \<open>The hook reads the three dependencies of the memo from the state.\<close>

definition useFilteredTasks :: "Platform \<Rightarrow> AppState \<Rightarrow> Task list" where
  "useFilteredTasks P state =
     filteredTasks P (ui_filter (ui state)) (settings state) (tasks state)"

text \<open>The tasks that the five filtering steps keep.\<close>

definition passesFilter :: "Platform \<Rightarrow> Filter \<Rightarrow> Settings \<Rightarrow> Task \<Rightarrow> bool" where
  "passesFilter P flt s task =
     ((case f_status flt of All \<Rightarrow> True | Only st \<Rightarrow> task_status task = st) \<and>
      (f_category flt \<noteq> ''all'' \<longrightarrow> task_category task = f_category flt) \<and>
      (case f_priority flt of All \<Rightarrow> True | Only p \<Rightarrow> task_priority task = p) \<and>
      (trim P (f_searchQuery flt) \<noteq> [] \<longrightarrow>
         matchesQuery P (toLowerCase P (f_searchQuery flt)) task) \<and>
      (\<not> showCompleted s \<longrightarrow> task_status task \<noteq> Completed))"

text \<open>
  A consistent comparator in the sense of the language standard, as far as sorting
  needs it: the sign of \<open>c a b\<close> is opposite to that of \<open>c b a\<close>, and \<open>c a b \<le> 0\<close> is
  transitive. \<^verbatim>\<open>localeCompare\<close> is one for every locale.
\<close>

definition consistentCompare :: "('a \<Rightarrow> 'a \<Rightarrow> int) \<Rightarrow> bool" where
  "consistentCompare c =
     ((\<forall>a b. (c a b < 0) = (0 < c b a)) \<and>
      (\<forall>a b d. c a b \<le> 0 \<and> c b d \<le> 0 \<longrightarrow> c a d \<le> 0))"

section \<open>A platform to evaluate on\<close>

text \<open>
  One admissible choice of the library functions, for evaluating the model on concrete
  inputs: comparison of the encoded strings byte by byte, lower case and white space
  of ASCII, and decimal digits for the non-negative integers.
\<close>

fun compareBytes :: "string \<Rightarrow> string \<Rightarrow> int" where
  "compareBytes [] [] = 0"
| "compareBytes [] (y # ys) = - 1"
| "compareBytes (x # xs) [] = 1"
| "compareBytes (x # xs) (y # ys) =
     (if (of_char x :: nat) < of_char y then - 1
      else if (of_char y :: nat) < of_char x then 1
      else compareBytes xs ys)"

definition asciiLower :: "char \<Rightarrow> char" where
  "asciiLower c =
     (if (65 :: nat) \<le> of_char c \<and> (of_char c :: nat) \<le> 90
      then char_of (of_char c + (32 :: nat)) else c)"

definition asciiSpace :: "char \<Rightarrow> bool" where
  "asciiSpace c = ((of_char c :: nat) \<in> {9, 10, 11, 12, 13, 32})"

definition asciiTrim :: "string \<Rightarrow> string" where
  "asciiTrim s = rev (dropWhile asciiSpace (rev (dropWhile asciiSpace s)))"

fun decimal :: "nat \<Rightarrow> string" where
  "decimal n =
     (if n < 10 then [char_of (48 + n)]
      else decimal (n div 10) @ [char_of (48 + n mod 10)])"

declare decimal.simps [simp del]

definition showNumber :: "jsnum \<Rightarrow> string" where
  "showNumber x =
     (case x of Num r \<Rightarrow> decimal (nat \<lfloor>r\<rfloor>) | PosInf \<Rightarrow> ''Infinity'' | NaN \<Rightarrow> ''NaN'')"

definition asciiPlatform :: Platform where
  "asciiPlatform =
     \<lparr> localeCompare = compareBytes, toLowerCase = map asciiLower, trim = asciiTrim,
       numberToString = showNumber \<rparr>"

section \<open>The reducer and the invariant\<close>

lemma applyStatus_inv: "taskInvariant (applyStatus now st c task)"
  by (simp add: taskInvariant_def applyStatus_def)

lemma applyUpdates_inv:
  "taskInvariant task \<Longrightarrow> payloadKeepsInvariant (UPDATE_TASK ident updates) \<Longrightarrow>
   taskInvariant (applyUpdates now task updates)"
  by (auto simp: taskInvariant_def applyUpdates_def spread_def split: option.splits)

text \<open>
  C1, as the code has it. The reducer keeps the invariant
  \<^verbatim>\<open>completedAt \<noteq> null \<longleftrightarrow> status = completed\<close> of every task when the action brings
  nothing that breaks it: the tasks of a \<^verbatim>\<open>SET_TASKS\<close>, \<^verbatim>\<open>ADD_TASK\<close> or
  \<^verbatim>\<open>REORDER_TASKS\<close> payload satisfy it, and the updates of \<^verbatim>\<open>UPDATE_TASK\<close> set neither
  \<^verbatim>\<open>status\<close> nor \<^verbatim>\<open>completedAt\<close>, or both in agreement. \<^verbatim>\<open>UPDATE_TASK_STATUS\<close> and
  all other actions keep it without condition.
\<close>

theorem reducer_preserves_invariant:
  assumes "stateInvariant state" and "payloadKeepsInvariant action"
  shows "stateInvariant (appReducer now state action)"
proof (cases action)
  case (UPDATE_TASK ident updates)
  then show ?thesis
    using assms applyUpdates_inv [of _ ident updates now]
    by (auto simp: stateInvariant_def list_all_iff)
next
  case (UPDATE_TASK_STATUS ident st c)
  then show ?thesis
    using assms by (auto simp: stateInvariant_def list_all_iff applyStatus_inv)
qed (use assms in \<open>auto simp: stateInvariant_def list_all_iff\<close>)

lemma reportDone_fields:
  "task_id reportDone = ''7f3c''" "task_status reportDone = Completed"
  "task_completedAt reportDone = Some 2000" "task_title reportDone = ''Report''"
  "task_completionComment reportDone = ''done early''" "task_tags reportDone = [''work'']"
  by (simp_all add: reportDone_def reportTask_def applyStatus_def createTask_def
        formInput_def orEmpty_def)

lemma reportTask_fields:
  "task_id reportTask = ''7f3c''" "task_status reportTask = Todo"
  "task_completedAt reportTask = None" "task_completionComment reportTask = []"
  by (simp_all add: reportTask_def createTask_def formInput_def)

lemma taskA_fields:
  "task_id taskA = ''a1''" "task_title taskA = ''A''" "task_priority taskA = Low"
  "task_order taskA = 0" "task_status taskA = Todo" "task_category taskA = ''default''"
  by (simp_all add: taskA_def createTask_def formInput_def)

lemma taskB_fields:
  "task_id taskB = ''b2''" "task_title taskB = ''B''" "task_priority taskB = High"
  "task_order taskB = 1" "task_status taskB = Todo" "task_category taskB = ''default''"
  by (simp_all add: taskB_def createTask_def formInput_def)

text \<open>
  C1 as stated fails. Editing a completed task in the task form dispatches
  \<^verbatim>\<open>UPDATE_TASK\<close> with the form's input, which carries \<^verbatim>\<open>status: 'todo'\<close> and no
  \<^verbatim>\<open>completedAt\<close>: the state before satisfies the invariant, the state after has a
  task with status \<^verbatim>\<open>todo\<close> and a completion date.
\<close>

theorem form_edit_breaks_invariant:
  "stateInvariant (initialState\<lparr> tasks := [reportDone] \<rparr>) \<and>
   \<not> stateInvariant
        (appReducer 3000 (initialState\<lparr> tasks := [reportDone] \<rparr>)
           (UPDATE_TASK ''7f3c''
              (asUpdates (formInput ''Report v2'' [] Medium ''default'' [''work'']))))"
  by (simp add: stateInvariant_def taskInvariant_def reportDone_fields applyUpdates_def
        asUpdates_def formInput_def spread_def)

theorem reducer_preserves_invariant_witness:
  "stateInvariant (initialState\<lparr> tasks := [reportDone] \<rparr>) \<and>
   payloadKeepsInvariant
     (UPDATE_TASK ''7f3c'' (noUpdates\<lparr> up_category := Some ''default'' \<rparr>)) \<and>
   stateInvariant
     (appReducer 3000 (initialState\<lparr> tasks := [reportDone] \<rparr>)
        (UPDATE_TASK ''7f3c'' (noUpdates\<lparr> up_category := Some ''default'' \<rparr>)))"
proof -
  have s: "stateInvariant (initialState\<lparr> tasks := [reportDone] \<rparr>)"
    by (simp add: stateInvariant_def taskInvariant_def reportDone_fields)
  have p: "payloadKeepsInvariant
             (UPDATE_TASK ''7f3c'' (noUpdates\<lparr> up_category := Some ''default'' \<rparr>))"
    by (simp add: noUpdates_def)
  show ?thesis
    using s p reducer_preserves_invariant [OF s p, of 3000] by simp
qed

section \<open>Status transitions\<close>

text \<open>
  C2. At every position of the task list that holds the given id, the status
  transition of the reducer (\<^verbatim>\<open>UPDATE_TASK_STATUS\<close>) and that of the task storage
  (\<^verbatim>\<open>updateTaskStatus\<close>) do the same: with status \<^verbatim>\<open>completed\<close> they set
  \<^verbatim>\<open>completedAt\<close> to a date and \<^verbatim>\<open>completionComment\<close> to the comment provided; with
  any other status they set \<^verbatim>\<open>completedAt\<close> to null and leave the comment as it was.
\<close>

theorem status_transition_stamps:
  assumes "i < length ts" and "task_id (ts ! i) = ident"
  shows "(st = Completed \<longrightarrow>
            task_completedAt (tasks (appReducer now (state\<lparr> tasks := ts \<rparr>)
                (UPDATE_TASK_STATUS ident st (Some comment))) ! i) \<noteq> None \<and>
            task_completionComment (tasks (appReducer now (state\<lparr> tasks := ts \<rparr>)
                (UPDATE_TASK_STATUS ident st (Some comment))) ! i) = comment \<and>
            task_completedAt (updateTaskStatus now ident st (Some comment) ts ! i) \<noteq> None \<and>
            task_completionComment (updateTaskStatus now ident st (Some comment) ts ! i)
              = comment) \<and>
         (st \<noteq> Completed \<longrightarrow>
            task_completedAt (tasks (appReducer now (state\<lparr> tasks := ts \<rparr>)
                (UPDATE_TASK_STATUS ident st (Some comment))) ! i) = None \<and>
            task_completionComment (tasks (appReducer now (state\<lparr> tasks := ts \<rparr>)
                (UPDATE_TASK_STATUS ident st (Some comment))) ! i)
              = task_completionComment (ts ! i) \<and>
            task_completedAt (updateTaskStatus now ident st (Some comment) ts ! i) = None \<and>
            task_completionComment (updateTaskStatus now ident st (Some comment) ts ! i)
              = task_completionComment (ts ! i))"
  using assms by (simp add: updateTaskStatus_def applyStatus_def orEmpty_def)

theorem status_transition_stamps_witness:
  "1 < length [taskA, reportTask] \<and> task_id ([taskA, reportTask] ! 1) = ''7f3c'' \<and>
   task_completedAt (tasks (appReducer 2000 (initialState\<lparr> tasks := [taskA, reportTask] \<rparr>)
       (UPDATE_TASK_STATUS ''7f3c'' Completed (Some ''done early''))) ! 1) \<noteq> None \<and>
   task_completionComment (updateTaskStatus 2000 ''7f3c'' Completed (Some ''done early'')
       [taskA, reportTask] ! 1) = ''done early''"
proof -
  have i: "1 < length [taskA, reportTask]"
    by simp
  have k: "task_id ([taskA, reportTask] ! 1) = ''7f3c''"
    by (simp add: reportTask_fields)
  show ?thesis
    using k status_transition_stamps [OF i k, of Completed 2000 initialState "''done early''"]
    by simp
qed

section \<open>Task creation\<close>




section \<open>Reordering\<close>

text \<open>
  C6. For every state and every task list \<open>l\<close>, \<^verbatim>\<open>REORDER_TASKS\<close> with payload \<open>l\<close>
  returns a state whose task list is \<open>l\<close> and whose other parts are unchanged. Nothing
  is compared with the previous list: a payload that omits a task of the previous
  list is stored just the same.
\<close>

theorem reorder_replaces_task_list:
  "tasks (appReducer now state (REORDER_TASKS l)) = l \<and>
   categories (appReducer now state (REORDER_TASKS l)) = categories state \<and>
   settings (appReducer now state (REORDER_TASKS l)) = settings state \<and>
   ui (appReducer now state (REORDER_TASKS l)) = ui state \<and>
   tasks (appReducer now (state\<lparr> tasks := dropped # l \<rparr>) (REORDER_TASKS l)) = l"
  by simp

lemma reorderTasks_nth:
  "i < length l \<Longrightarrow>
   reorderTasks now l ! i = (l ! i)\<lparr> task_order := int i, task_updatedAt := now \<rparr>"
  by (simp add: reorderTasks_def nth_enumerate_eq)

text \<open>
  C10. The storage's \<^verbatim>\<open>reorderTasks\<close> returns a list of the same length whose element
  at position \<open>i\<close> is \<open>l ! i\<close> with \<^verbatim>\<open>order\<close> set to \<open>i\<close> and \<^verbatim>\<open>updatedAt\<close> set to the
  current date, so the order fields are \<open>0, \<dots>, n - 1\<close>; the reducer's
  \<^verbatim>\<open>REORDER_TASKS\<close> stores the payload as it is, order fields included.
\<close>

theorem reorderTasks_renumbers:
  "length (reorderTasks now l) = length l \<and>
   (\<forall>i < length l.
      reorderTasks now l ! i = (l ! i)\<lparr> task_order := int i, task_updatedAt := now \<rparr>) \<and>
   map task_order (reorderTasks now l) = map int [0 ..< length l] \<and>
   tasks (appReducer now' state (REORDER_TASKS l)) = l"
proof -
  have len: "length (reorderTasks now l) = length l"
    by (simp add: reorderTasks_def)
  have ord: "map task_order (reorderTasks now l) = map int [0 ..< length l]"
    by (rule nth_equalityI) (simp_all add: len reorderTasks_nth)
  show ?thesis
    using len ord by (simp add: reorderTasks_nth)
qed

theorem reorderTasks_renumbers_witness:
  "reorderTasks 7 [taskB, taskA] ! 1 = taskA\<lparr> task_order := 1, task_updatedAt := 7 \<rparr> \<and>
   reorderTasks 7 [taskB, taskA] ! 0 = taskB\<lparr> task_order := 0, task_updatedAt := 7 \<rparr> \<and>
   map task_order (tasks (appReducer 7 initialState (REORDER_TASKS [taskB, taskA]))) = [1, 0]"
proof -
  have "\<forall>i < length [taskB, taskA].
          reorderTasks 7 [taskB, taskA] ! i
            = ([taskB, taskA] ! i)\<lparr> task_order := int i, task_updatedAt := 7 \<rparr>"
    using reorderTasks_renumbers [of 7 "[taskB, taskA]"] by blast
  then have "reorderTasks 7 [taskB, taskA] ! 1
               = ([taskB, taskA] ! 1)\<lparr> task_order := int 1, task_updatedAt := 7 \<rparr>"
        and "reorderTasks 7 [taskB, taskA] ! 0
               = ([taskB, taskA] ! 0)\<lparr> task_order := int 0, task_updatedAt := 7 \<rparr>"
    by simp_all
  then show ?thesis
    by (simp add: taskA_fields taskB_fields)
qed

section \<open>Deleting a category\<close>

lemma applyUpdates_move:
  "task_id (applyUpdates now task (noUpdates\<lparr> up_category := Some c \<rparr>)) = task_id task"
  "task_category (applyUpdates now task (noUpdates\<lparr> up_category := Some c \<rparr>)) = c"
  by (simp_all add: applyUpdates_def noUpdates_def spread_def)

lemma dispatch_moves:
  "map task_id (tasks (dispatchAll clock k state (map moveToDefault us))) = map task_id (tasks state) \<and>
   map task_category (tasks (dispatchAll clock k state (map moveToDefault us)))
     = map (\<lambda>t. if task_id t \<in> task_id ` set us then ''default'' else task_category t) (tasks state) \<and>
   categories (dispatchAll clock k state (map moveToDefault us)) = categories state"
proof (induction us arbitrary: k state)
  case Nil
  show ?case by simp
next
  case (Cons u us)
  let ?s1 = "appReducer (clock k) state (moveToDefault u)"
  have ids: "map task_id (tasks ?s1) = map task_id (tasks state)"
    by (simp add: moveToDefault_def applyUpdates_move comp_def)
  have cats: "map (\<lambda>t. if task_id t \<in> task_id ` set us then ''default'' else task_category t) (tasks ?s1)
     = map (\<lambda>t. if task_id t \<in> task_id ` set (u # us) then ''default'' else task_category t) (tasks state)"
    by (simp add: moveToDefault_def applyUpdates_move comp_def)
  have c1: "categories ?s1 = categories state"
    by (simp add: moveToDefault_def)
  show ?case
    using Cons.IH [of "Suc k" ?s1] ids cats c1 by simp
qed

lemma dispatchAll_append:
  "dispatchAll clock k state (as @ bs)
     = dispatchAll clock (k + length as) (dispatchAll clock k state as) bs"
  by (induction as arbitrary: k state) simp_all

text \<open>
  C3. Deleting a category other than \<^verbatim>\<open>default\<close> succeeds and leaves a task list of the
  same length in which every task that referenced the category (each of the \<open>N\<close>
  positions that held it) has category \<^verbatim>\<open>default\<close> and no task references the category
  any more; the category is gone from the category list of the state and from the
  stored one. Deleting \<^verbatim>\<open>default\<close> is refused with an error and leaves the task list,
  the category list and the stored categories as they were.
\<close>

theorem deleteCategory_moves_tasks:
  "(ident \<noteq> ''default'' \<longrightarrow>
      fst (deleteCategory clock ident w) = None \<and>
      length (tasks (app (snd (deleteCategory clock ident w)))) = length (tasks (app w)) \<and>
      (\<forall>i < length (tasks (app w)).
         task_category (tasks (app w) ! i) = ident \<longrightarrow>
         task_category (tasks (app (snd (deleteCategory clock ident w))) ! i) = ''default'') \<and>
      (\<forall>t \<in> set (tasks (app (snd (deleteCategory clock ident w)))). task_category t \<noteq> ident) \<and>
      ident \<notin> cat_id ` set (categories (app (snd (deleteCategory clock ident w)))) \<and>
      ident \<notin> cat_id ` set (storedCategories (snd (deleteCategory clock ident w)))) \<and>
   deleteCategory clock ''default'' w = (Some DefaultCategoryNotDeletable, w) \<and>
   deleteCategoryFromStorage ''default'' cs = cs"
proof -
  let ?us = "filter (\<lambda>task. task_category task = ident) (tasks (app w))"
  let ?s1 = "dispatchAll clock 0 (app w) (map moveToDefault ?us)"
  let ?w' = "snd (deleteCategory clock ident w)"
  have moved: "map task_category (tasks ?s1)
     = map (\<lambda>t. if task_id t \<in> task_id ` set ?us then ''default'' else task_category t) (tasks (app w))"
    and cats: "categories ?s1 = categories (app w)"
    using dispatch_moves [of clock 0 "app w" ?us] by simp_all
  have app': "ident \<noteq> ''default'' \<Longrightarrow>
        app ?w' = appReducer (clock (length ?us)) ?s1 (DELETE_CATEGORY ident)"
    by (simp add: deleteCategory_def Let_def dispatchAll_append)
  have tasks': "ident \<noteq> ''default'' \<Longrightarrow> tasks (app ?w') = tasks ?s1"
    by (simp add: app')
  have len: "length (tasks ?s1) = length (tasks (app w))"
    using moved by (rule map_eq_imp_length_eq)
  have nth: "\<And>i. i < length (tasks (app w)) \<Longrightarrow>
        task_category (tasks ?s1 ! i) =
          (if task_id (tasks (app w) ! i) \<in> task_id ` set ?us then ''default''
           else task_category (tasks (app w) ! i))"
  proof -
    fix i assume i: "i < length (tasks (app w))"
    then have "task_category (tasks ?s1 ! i) = map task_category (tasks ?s1) ! i"
      using len by simp
    also have "\<dots> = (if task_id (tasks (app w) ! i) \<in> task_id ` set ?us then ''default''
           else task_category (tasks (app w) ! i))"
      using i by (simp add: moved)
    finally show "task_category (tasks ?s1 ! i) =
          (if task_id (tasks (app w) ! i) \<in> task_id ` set ?us then ''default''
           else task_category (tasks (app w) ! i))" .
  qed
  have hit: "\<And>i. i < length (tasks (app w)) \<Longrightarrow> task_category (tasks (app w) ! i) = ident \<Longrightarrow>
        task_category (tasks ?s1 ! i) = ''default''"
  proof -
    fix i assume i: "i < length (tasks (app w))" and c: "task_category (tasks (app w) ! i) = ident"
    then have "tasks (app w) ! i \<in> set ?us" by simp
    then have "task_id (tasks (app w) ! i) \<in> task_id ` set ?us" by (rule imageI)
    then show "task_category (tasks ?s1 ! i) = ''default''"
      using nth [OF i] by simp
  qed
  have none: "ident \<noteq> ''default'' \<Longrightarrow> \<forall>t \<in> set (tasks ?s1). task_category t \<noteq> ident"
  proof
    fix t assume d: "ident \<noteq> ''default''" and "t \<in> set (tasks ?s1)"
    then obtain i where i: "i < length (tasks ?s1)" and t: "t = tasks ?s1 ! i"
      by (auto simp: in_set_conv_nth)
    then have i': "i < length (tasks (app w))" using len by simp
    show "task_category t \<noteq> ident"
    proof (cases "task_category (tasks (app w) ! i) = ident")
      case True
      then show ?thesis using hit [OF i'] t d by simp
    next
      case False
      then show ?thesis using nth [OF i'] t d by auto
    qed
  qed
  have dflt: "deleteCategory clock ''default'' w = (Some DefaultCategoryNotDeletable, w)"
    by (simp add: deleteCategory_def)
  have sto: "deleteCategoryFromStorage ''default'' cs = cs"
    by (simp add: deleteCategoryFromStorage_def)
  have ok: "ident \<noteq> ''default'' \<Longrightarrow> fst (deleteCategory clock ident w) = None"
    by (simp add: deleteCategory_def Let_def)
  have c': "ident \<noteq> ''default'' \<Longrightarrow> ident \<notin> cat_id ` set (categories (app ?w'))"
    by (auto simp: app')
  have st': "ident \<noteq> ''default'' \<Longrightarrow> ident \<notin> cat_id ` set (storedCategories ?w')"
    by (auto simp: deleteCategory_def deleteCategoryFromStorage_def Let_def)
  show ?thesis
  proof (intro conjI impI)
    assume d: "ident \<noteq> ''default''"
    show "fst (deleteCategory clock ident w) = None" using ok d .
    show "length (tasks (app ?w')) = length (tasks (app w))"
      unfolding tasks' [OF d] using len .
    show "\<forall>i < length (tasks (app w)).
            task_category (tasks (app w) ! i) = ident \<longrightarrow>
            task_category (tasks (app ?w') ! i) = ''default''"
      unfolding tasks' [OF d] using hit by blast
    show "\<forall>t \<in> set (tasks (app ?w')). task_category t \<noteq> ident"
      unfolding tasks' [OF d] using none [OF d] .
    show "ident \<notin> cat_id ` set (categories (app ?w'))" using c' d .
    show "ident \<notin> cat_id ` set (storedCategories ?w')" using st' d .
  next
    show "deleteCategory clock ''default'' w = (Some DefaultCategoryNotDeletable, w)"
      by (rule dflt)
    show "deleteCategoryFromStorage ''default'' cs = cs"
      by (rule sto)
  qed
qed

theorem deleteCategory_moves_tasks_witness:
  "''c-work'' \<noteq> ''default'' \<and>
   task_category (tasks (app workWorld) ! 0) = ''c-work'' \<and>
   task_category (tasks (app (snd (deleteCategory (\<lambda>k. 100 + int k) ''c-work'' workWorld))) ! 0)
     = ''default'' \<and>
   ''c-work'' \<notin> cat_id ` set (categories (app (snd (deleteCategory (\<lambda>k. 100 + int k) ''c-work'' workWorld))))"
proof -
  have d: "''c-work'' \<noteq> ''default''" by simp
  have l: "0 < length (tasks (app workWorld))"
    by (simp add: workWorld_def)
  have c: "task_category (tasks (app workWorld) ! 0) = ''c-work''"
    by (simp add: workWorld_def)
  from deleteCategory_moves_tasks [of "''c-work''" "\<lambda>k. 100 + int k" workWorld]
  have "(\<forall>i < length (tasks (app workWorld)).
           task_category (tasks (app workWorld) ! i) = ''c-work'' \<longrightarrow>
           task_category (tasks (app (snd (deleteCategory (\<lambda>k. 100 + int k) ''c-work'' workWorld))) ! i)
             = ''default'')"
    and "''c-work'' \<notin> cat_id ` set (categories (app (snd (deleteCategory (\<lambda>k. 100 + int k) ''c-work'' workWorld))))"
    using d by blast+
  then show ?thesis
    using d l c by blast
qed

section \<open>The derived view\<close>

lemma set_insertSorted: "set (insertSorted c x ys) = insert x (set ys)"
  by (induction ys) auto

lemma set_arraySort: "set (arraySort c xs) = set xs"
  by (induction xs) (simp_all add: arraySort_def set_insertSorted)

lemma length_insertSorted: "length (insertSorted c x ys) = Suc (length ys)"
  by (induction ys) auto

lemma length_arraySort: "length (arraySort c xs) = length xs"
  by (induction xs) (simp_all add: arraySort_def length_insertSorted)

lemma arraySort_Cons: "arraySort c (x # xs) = insertSorted c x (arraySort c xs)"
  by (simp add: arraySort_def)

lemma sorted_insertSorted:
  assumes tot: "\<And>a b. 0 < c a b \<Longrightarrow> c b a \<le> 0"
    and tr: "\<And>a b d. c a b \<le> 0 \<Longrightarrow> c b d \<le> 0 \<Longrightarrow> c a d \<le> 0"
    and srt: "sorted_wrt (\<lambda>a b. c a b \<le> 0) ys"
  shows "sorted_wrt (\<lambda>a b. c a b \<le> 0) (insertSorted c x ys)"
  using srt
proof (induction ys)
  case Nil
  then show ?case by simp
next
  case (Cons y ys)
  show ?case
  proof (cases "c x y \<le> 0")
    case True
    then have "\<forall>z \<in> set ys. c x z \<le> 0"
      using Cons.prems tr by auto
    with True Cons.prems show ?thesis by simp
  next
    case False
    then have "c y x \<le> 0"
      using tot [of x y] by simp
    with False Cons show ?thesis
      by (auto simp: set_insertSorted)
  qed
qed

lemma sorted_arraySort:
  assumes "\<And>a b. 0 < c a b \<Longrightarrow> c b a \<le> 0"
    and "\<And>a b d. c a b \<le> 0 \<Longrightarrow> c b d \<le> 0 \<Longrightarrow> c a d \<le> 0"
  shows "sorted_wrt (\<lambda>a b. c a b \<le> 0) (arraySort c xs)"
proof (induction xs)
  case Nil
  show ?case by (simp add: arraySort_def)
next
  case (Cons x xs)
  then show ?case
    using sorted_insertSorted [of c "arraySort c xs" x] assms
    by (simp add: arraySort_Cons)
qed

lemma insertSorted_front:
  "\<forall>y \<in> set ys. c x y \<le> 0 \<Longrightarrow> insertSorted c x ys = x # ys"
  by (cases ys) simp_all

lemma arraySort_sorted:
  "sorted_wrt (\<lambda>a b. c a b \<le> 0) xs \<Longrightarrow> arraySort c xs = xs"
  by (induction xs) (simp_all add: arraySort_Cons insertSorted_front, simp add: arraySort_def)

lemma filter_arraySort:
  "\<forall>x \<in> set xs. Q x \<Longrightarrow> filter Q (arraySort c xs) = arraySort c xs"
  by (simp add: set_arraySort)

lemma filteredTasks_passes:
  "filteredTasks P flt s ts = arraySort (compareTasks P s) (filter (passesFilter P flt s) ts)"
proof -
  have "filter (passesFilter P flt s) ts =
        (let byStatus = (case f_status flt of
                        All \<Rightarrow> ts
                      | Only st \<Rightarrow> filter (\<lambda>task. task_status task = st) ts);
          byCategory = (if f_category flt \<noteq> ''all''
                        then filter (\<lambda>task. task_category task = f_category flt) byStatus
                        else byStatus);
          byPriority = (case f_priority flt of
                          All \<Rightarrow> byCategory
                        | Only p \<Rightarrow> filter (\<lambda>task. task_priority task = p) byCategory);
          bySearch = (if trim P (f_searchQuery flt) \<noteq> []
                      then filter (matchesQuery P (toLowerCase P (f_searchQuery flt))) byPriority
                      else byPriority)
         in if \<not> showCompleted s
                     then filter (\<lambda>task. task_status task \<noteq> Completed) bySearch
                     else bySearch)"
    by (auto simp: passesFilter_def Let_def split: OrAll.splits intro!: filter_cong)
  then show ?thesis
    by (simp add: filteredTasks_def Let_def)
qed

lemma compareTasks_total:
  assumes "sortBy s = SortTitle \<Longrightarrow> consistentCompare (localeCompare P)"
    and "0 < compareTasks P s a b"
  shows "compareTasks P s b a \<le> 0"
proof (cases "sortBy s")
  case SortTitle
  then have sw: "\<And>x y. (localeCompare P x y < 0) = (0 < localeCompare P y x)"
    using assms(1) by (simp add: consistentCompare_def)
  show ?thesis
  proof (cases "sortOrder s = Desc")
    case True
    with SortTitle assms(2) have "0 < localeCompare P (task_title a) (task_title b)"
      by (simp add: compareTasks_def)
    then have "localeCompare P (task_title b) (task_title a) < 0"
      using sw by simp
    with True SortTitle show ?thesis
      by (simp add: compareTasks_def)
  next
    case False
    with SortTitle assms(2) have "localeCompare P (task_title a) (task_title b) < 0"
      by (simp add: compareTasks_def)
    then have "0 < localeCompare P (task_title b) (task_title a)"
      using sw by simp
    with False SortTitle show ?thesis
      by (simp add: compareTasks_def)
  qed
qed (use assms(2) in \<open>auto simp: compareTasks_def Let_def split: if_splits\<close>)

lemma compareTasks_trans:
  assumes "sortBy s = SortTitle \<Longrightarrow> consistentCompare (localeCompare P)"
    and "compareTasks P s a b \<le> 0" and "compareTasks P s b d \<le> 0"
  shows "compareTasks P s a d \<le> 0"
proof (cases "sortBy s")
  case SortTitle
  then have c: "consistentCompare (localeCompare P)"
    using assms(1) by simp
  have le: "\<And>x y z. localeCompare P x y \<le> 0 \<Longrightarrow> localeCompare P y z \<le> 0 \<Longrightarrow> localeCompare P x z \<le> 0"
    using c unfolding consistentCompare_def by blast
  have sw: "\<And>x y. (0 \<le> localeCompare P x y) = (localeCompare P y x \<le> 0)"
    using c unfolding consistentCompare_def by (metis not_less)
  show ?thesis
  proof (cases "sortOrder s = Desc")
    case True
    with SortTitle assms(2,3) le show ?thesis
      by (simp add: compareTasks_def)
  next
    case False
    with SortTitle assms(2,3) have "localeCompare P (task_title b) (task_title a) \<le> 0"
      "localeCompare P (task_title d) (task_title b) \<le> 0"
      by (simp_all add: compareTasks_def sw)
    then have "localeCompare P (task_title d) (task_title a) \<le> 0"
      using le by blast
    with False SortTitle show ?thesis
      by (simp add: compareTasks_def sw)
  qed
qed (use assms(2,3) in \<open>auto simp: compareTasks_def Let_def split: if_splits\<close>)

lemma consistent_sign: "consistentCompare c \<Longrightarrow> (c a b < 0) = (0 < c b a)"
  unfolding consistentCompare_def by blast

lemma consistent_total: "consistentCompare c \<Longrightarrow> 0 < c a b \<Longrightarrow> c b a \<le> 0"
  using consistent_sign [of c b a] by simp

lemma consistent_trans:
  "consistentCompare c \<Longrightarrow> c a b \<le> 0 \<Longrightarrow> c b d \<le> 0 \<Longrightarrow> c a d \<le> 0"
  unfolding consistentCompare_def by blast

lemma consistent_equiv:
  "consistentCompare c \<Longrightarrow> c a b \<le> 0 \<Longrightarrow> c b a \<le> 0 \<Longrightarrow> c a b = 0"
  using consistent_sign [of c a b] by simp

lemma consistent_sym: "consistentCompare c \<Longrightarrow> c a b = 0 \<Longrightarrow> c b a = 0"
  using consistent_sign [of c a b] consistent_sign [of c b a] by simp

lemma consistent_refl: "consistentCompare c \<Longrightarrow> c a a = 0"
  using consistent_sign [of c a a] by auto

lemma consistent_compareTasks:
  assumes "sortBy s = SortTitle \<Longrightarrow> consistentCompare (localeCompare P)"
  shows "consistentCompare (compareTasks P s)"
  unfolding consistentCompare_def
proof (intro conjI allI impI)
  fix a b
  show "(compareTasks P s a b < 0) = (0 < compareTasks P s b a)"
  proof (cases "sortBy s")
    case SortTitle
    then have "\<And>x y. (localeCompare P x y < 0) = (0 < localeCompare P y x)"
      using assms by (simp add: consistentCompare_def)
    then show ?thesis
      using SortTitle by (simp add: compareTasks_def Let_def)
  qed (auto simp: compareTasks_def Let_def)
next
  fix a b d
  assume "compareTasks P s a b \<le> 0 \<and> compareTasks P s b d \<le> 0"
  then show "compareTasks P s a d \<le> 0"
    using compareTasks_trans [OF assms] by blast
qed

text \<open>
  The sort of the model returns a rearrangement of its input that is sorted and keeps
  the order of elements that compare equal. For a consistent comparator these three
  properties fix the result, so every sort that meets the contract of
  \<^verbatim>\<open>Array.prototype.sort\<close> returns what \<open>arraySort\<close> returns.
\<close>

lemma mset_insertSorted: "mset (insertSorted c x ys) = add_mset x (mset ys)"
  by (induction ys) simp_all

lemma mset_arraySort: "mset (arraySort c xs) = mset xs"
  by (induction xs) (simp_all add: arraySort_Cons mset_insertSorted, simp add: arraySort_def)

lemma filter_insertSorted_out:
  "\<not> Q x \<Longrightarrow> filter Q (insertSorted c x ys) = filter Q ys"
  by (induction ys) simp_all

lemma filter_insertSorted_in:
  "Q x \<Longrightarrow> \<forall>y. Q y \<longrightarrow> c x y \<le> 0 \<Longrightarrow> filter Q (insertSorted c x ys) = x # filter Q ys"
  by (induction ys) auto

lemma stable_arraySort:
  assumes "consistentCompare c"
  shows "filter (\<lambda>y. c x y = 0) (arraySort c xs) = filter (\<lambda>y. c x y = 0) xs"
proof (induction xs)
  case Nil
  show ?case by (simp add: arraySort_def)
next
  case (Cons a xs)
  show ?case
  proof (cases "c x a = 0")
    case True
    have "\<forall>y. c x y = 0 \<longrightarrow> c a y \<le> 0"
    proof (intro allI impI)
      fix y assume "c x y = 0"
      moreover have "c a x = 0" using assms True by (rule consistent_sym)
      ultimately show "c a y \<le> 0"
        using consistent_trans [OF assms, of a x y] by simp
    qed
    with True Cons show ?thesis
      by (simp add: arraySort_Cons filter_insertSorted_in)
  next
    case False
    with Cons show ?thesis
      by (simp add: arraySort_Cons filter_insertSorted_out)
  qed
qed

lemma stable_sorted_unique:
  assumes c: "consistentCompare c"
    and "mset ys = mset zs"
    and "sorted_wrt (\<lambda>a b. c a b \<le> 0) ys" and "sorted_wrt (\<lambda>a b. c a b \<le> 0) zs"
    and "\<forall>x. filter (\<lambda>y. c x y = 0) ys = filter (\<lambda>y. c x y = 0) zs"
  shows "ys = zs"
  using assms(2-)
proof (induction ys arbitrary: zs)
  case Nil
  then show ?case by simp
next
  case (Cons y ys)
  then obtain z zs' where zs: "zs = z # zs'"
    by (cases zs) auto
  have se: "set (y # ys) = set zs"
    using Cons.prems(1) by (rule mset_eq_setD)
  then have "y \<in> set zs"
    by auto
  then have yz: "c z y \<le> 0 \<or> y = z"
    using Cons.prems(3) zs by auto
  have "z \<in> set (y # ys)"
    using se zs by simp
  then have zy: "c y z \<le> 0 \<or> y = z"
    using Cons.prems(2) by auto
  have refl: "c y y = 0"
    using c by (rule consistent_refl)
  have "c y z = 0"
  proof (cases "y = z")
    case True
    then show ?thesis using refl by simp
  next
    case False
    then show ?thesis
      using yz zy consistent_equiv [OF c, of y z] by simp
  qed
  then have "filter (\<lambda>u. c y u = 0) (y # ys) = y # filter (\<lambda>u. c y u = 0) ys"
    and "filter (\<lambda>u. c y u = 0) zs = z # filter (\<lambda>u. c y u = 0) zs'"
    using refl zs by simp_all
  moreover have "filter (\<lambda>u. c y u = 0) (y # ys) = filter (\<lambda>u. c y u = 0) zs"
    using Cons.prems(4) by blast
  ultimately have eq: "y = z"
    by simp
  have m: "mset ys = mset zs'"
    using Cons.prems(1) zs eq by simp
  have s1: "sorted_wrt (\<lambda>a b. c a b \<le> 0) ys" and s2: "sorted_wrt (\<lambda>a b. c a b \<le> 0) zs'"
    using Cons.prems(2,3) zs by simp_all
  have f: "\<forall>x. filter (\<lambda>y. c x y = 0) ys = filter (\<lambda>y. c x y = 0) zs'"
  proof
    fix x
    have "filter (\<lambda>u. c x u = 0) (y # ys) = filter (\<lambda>u. c x u = 0) (y # zs')"
      using Cons.prems(4) zs eq by simp
    then show "filter (\<lambda>y. c x y = 0) ys = filter (\<lambda>y. c x y = 0) zs'"
      by (cases "c x y = 0") simp_all
  qed
  show ?case
    using Cons.IH [OF m s1 s2 f] zs eq by simp
qed

lemma arraySort_determined:
  assumes c: "consistentCompare c"
    and "mset ys = mset xs"
    and "sorted_wrt (\<lambda>a b. c a b \<le> 0) ys"
    and "\<forall>x. filter (\<lambda>y. c x y = 0) ys = filter (\<lambda>y. c x y = 0) xs"
  shows "ys = arraySort c xs"
proof (rule stable_sorted_unique [OF c])
  show "mset ys = mset (arraySort c xs)"
    using assms(2) by (simp add: mset_arraySort)
  show "sorted_wrt (\<lambda>a b. c a b \<le> 0) ys" by fact
  show "sorted_wrt (\<lambda>a b. c a b \<le> 0) (arraySort c xs)"
  proof (rule sorted_arraySort)
    show "\<And>a b. 0 < c a b \<Longrightarrow> c b a \<le> 0"
      using c by (rule consistent_total)
    show "\<And>a b d. c a b \<le> 0 \<Longrightarrow> c b d \<le> 0 \<Longrightarrow> c a d \<le> 0"
      using c by (rule consistent_trans)
  qed
  show "\<forall>x. filter (\<lambda>y. c x y = 0) ys = filter (\<lambda>y. c x y = 0) (arraySort c xs)"
    using assms(4) by (simp add: stable_arraySort [OF c])
qed

text \<open>
  C5. The derived view is a function of the task list, the filter and the settings
  alone: every state that holds these three yields the same ordered list. It is
  idempotent: the view of its own output, under the same filter and settings, is that
  output. The comparator \<^verbatim>\<open>localeCompare\<close> is taken to be consistent, which matters
  only when the tasks are sorted by title.
\<close>

theorem filteredTasks_idempotent:
  assumes "sortBy s = SortTitle \<Longrightarrow> consistentCompare (localeCompare P)"
  shows "filteredTasks P flt s (filteredTasks P flt s ts) = filteredTasks P flt s ts \<and>
         (tasks state = ts \<and> ui_filter (ui state) = flt \<and> settings state = s \<longrightarrow>
            useFilteredTasks P state = filteredTasks P flt s ts \<and>
            useFilteredTasks P (state\<lparr> tasks := useFilteredTasks P state \<rparr>)
              = useFilteredTasks P state)"
proof -
  let ?c = "compareTasks P s"
  let ?kept = "filter (passesFilter P flt s) ts"
  have srt: "sorted_wrt (\<lambda>a b. ?c a b \<le> 0) (arraySort ?c ?kept)"
    by (rule sorted_arraySort) (use assms compareTasks_total compareTasks_trans in blast)+
  have "filter (passesFilter P flt s) (arraySort ?c ?kept) = arraySort ?c ?kept"
    by (rule filter_arraySort) simp
  moreover have "arraySort ?c (arraySort ?c ?kept) = arraySort ?c ?kept"
    using srt by (rule arraySort_sorted)
  ultimately have idem:
    "filteredTasks P flt s (filteredTasks P flt s ts) = filteredTasks P flt s ts"
    by (simp add: filteredTasks_passes)
  then show ?thesis
    by (simp add: useFilteredTasks_def)
qed

lemma compareBytes_sign: "(compareBytes a b < 0) = (0 < compareBytes b a)"
  by (induction a b rule: compareBytes.induct) auto

lemma compareBytes_trans:
  "compareBytes a b \<le> 0 \<Longrightarrow> compareBytes b d \<le> 0 \<Longrightarrow> compareBytes a d \<le> 0"
proof (induction a arbitrary: b d)
  case Nil
  then show ?case by (cases d) simp_all
next
  case (Cons x xs)
  then show ?case
    by (cases b; cases d) (auto split: if_splits)
qed

lemma consistent_compareBytes: "consistentCompare (localeCompare asciiPlatform)"
  unfolding consistentCompare_def asciiPlatform_def
  using compareBytes_sign compareBytes_trans by auto

theorem filteredTasks_idempotent_witness:
  "filteredTasks asciiPlatform (ui_filter initialUIState)
     ((settings initialState)\<lparr> sortBy := SortTitle \<rparr>) [reportDone, taskB, taskA]
     = [taskA, taskB, reportDone] \<and>
   filteredTasks asciiPlatform (ui_filter initialUIState)
     ((settings initialState)\<lparr> sortBy := SortTitle \<rparr>) [taskA, taskB, reportDone]
     = [taskA, taskB, reportDone]"
proof -
  have v: "filteredTasks asciiPlatform (ui_filter initialUIState)
           ((settings initialState)\<lparr> sortBy := SortTitle \<rparr>) [reportDone, taskB, taskA]
           = [taskA, taskB, reportDone]"
    by (simp add: filteredTasks_def initialUIState_def initialState_def asciiPlatform_def
          asciiTrim_def arraySort_def compareTasks_def taskA_fields taskB_fields
          reportDone_fields)
  show ?thesis
    using v filteredTasks_idempotent [of "(settings initialState)\<lparr> sortBy := SortTitle \<rparr>"
        asciiPlatform "ui_filter initialUIState" "[reportDone, taskB, taskA]",
        OF consistent_compareBytes]
    by simp
qed

text \<open>
  C7. With no active filter, completed tasks shown and sorting by priority, a list of
  a low-priority task followed by a high-priority one is shown as the high one first
  under \<^verbatim>\<open>desc\<close> and in its own order under \<^verbatim>\<open>asc\<close>. The tasks
  \<^verbatim>\<open>{title: "A", priority: "low", order: 0}\<close> and
  \<^verbatim>\<open>{title: "B", priority: "high", order: 1}\<close> give \<open>[B, A]\<close> and \<open>[A, B]\<close>.
\<close>

theorem priority_sort_example:
  assumes "f_status flt = All" and "f_category flt = ''all''" and "f_priority flt = All"
    and "trim P (f_searchQuery flt) = []"
    and "showCompleted s" and "sortBy s = SortPriority"
    and "task_priority a = Low" and "task_priority b = High"
  shows "(sortOrder s = Desc \<longrightarrow> filteredTasks P flt s [a, b] = [b, a]) \<and>
         (sortOrder s = Asc \<longrightarrow> filteredTasks P flt s [a, b] = [a, b])"
  using assms
  by (simp add: filteredTasks_def arraySort_def compareTasks_def priorityOrder_def)

theorem priority_sort_example_witness:
  "filteredTasks asciiPlatform (ui_filter initialUIState)
     ((settings initialState)\<lparr> sortBy := SortPriority, sortOrder := Desc \<rparr>) [taskA, taskB]
     = [taskB, taskA] \<and>
   filteredTasks asciiPlatform (ui_filter initialUIState)
     ((settings initialState)\<lparr> sortBy := SortPriority, sortOrder := Asc \<rparr>) [taskA, taskB]
     = [taskA, taskB] \<and>
   map task_title [taskA, taskB] = [''A'', ''B''] \<and>
   map task_priority [taskA, taskB] = [Low, High] \<and>
   map task_order [taskA, taskB] = [0, 1]"
proof -
  have f: "f_status (ui_filter initialUIState) = All"
    "f_category (ui_filter initialUIState) = ''all''"
    "f_priority (ui_filter initialUIState) = All"
    "trim asciiPlatform (f_searchQuery (ui_filter initialUIState)) = []"
    by (simp_all add: initialUIState_def asciiPlatform_def asciiTrim_def)
  have d: "showCompleted ((settings initialState)\<lparr> sortBy := SortPriority, sortOrder := Desc \<rparr>)"
    "sortBy ((settings initialState)\<lparr> sortBy := SortPriority, sortOrder := Desc \<rparr>) = SortPriority"
    by (simp_all add: initialState_def)
  have u: "showCompleted ((settings initialState)\<lparr> sortBy := SortPriority, sortOrder := Asc \<rparr>)"
    "sortBy ((settings initialState)\<lparr> sortBy := SortPriority, sortOrder := Asc \<rparr>) = SortPriority"
    by (simp_all add: initialState_def)
  show ?thesis
    using priority_sort_example [OF f d taskA_fields(3) taskB_fields(3)]
      priority_sort_example [OF f u taskA_fields(3) taskB_fields(3)]
    by (simp add: taskA_fields taskB_fields)
qed


section \<open>The share formatter\<close>

lemma sublist_behind: "sublist x ys \<Longrightarrow> sublist x (ps @ ys)"
  by (simp add: sublist_append)

lemma sublist_before: "sublist x ys \<Longrightarrow> sublist x (ys @ ss)"
  by (simp add: sublist_append)

lemma sublist_join: "x \<in> set xs \<Longrightarrow> sublist x (join sep xs)"
proof (induction sep xs rule: join.induct)
  case (1 sep)
  then show ?case by simp
next
  case (2 sep x')
  then show ?case by simp
next
  case (3 sep x' y ys)
  show ?case
  proof (cases "x = x'")
    case True
    then show ?thesis by simp
  next
    case False
    with 3 have "sublist x (join sep (y # ys))" by simp
    then have "sublist x (x' @ sep @ join sep (y # ys))"
      by (intro sublist_behind)
    then show ?thesis by simp
  qed
qed

text \<open>
  C8. The shared text of a task starts with
  \<^verbatim>\<open><statusEmoji> <title> - <statusLabel>\<close> and ends with the application hashtags.
  Between them stand, in this order and in full, the hashtag block (two line breaks
  and \<^verbatim>\<open>#tag\<close> for each tag, joined by spaces), present exactly when the tag list
  is not empty, and the comment line, present exactly when the status is
  \<^verbatim>\<open>completed\<close> and the comment is not empty; title and comment are never cut.
  The completed task titled "Report" with comment "done early" and tag "work" gives
  the check mark and "Report", then "#work", then the comment.
\<close>

theorem formatTaskForShare_structure:
  "prefix (statusEmoji (task_status task) @ '' '' @ task_title task @ '' - '' @
           statusLabel (task_status task)) (formatTaskForShare task) \<and>
   suffix appHashtags (formatTaskForShare task) \<and>
   formatTaskForShare task =
     (statusEmoji (task_status task) @ '' '' @ task_title task @ '' - '' @
      statusLabel (task_status task)) @
     (if task_tags task = [] then []
      else [CHR 0x0A, CHR 0x0A] @ join '' '' (map (\<lambda>tag. ''#'' @ tag) (task_tags task))) @
     (if task_status task = Completed \<and> task_completionComment task \<noteq> []
      then commentLead @ task_completionComment task else []) @
     appHashtags \<and>
   (\<forall>tag \<in> set (task_tags task). sublist (''#'' @ tag) (formatTaskForShare task)) \<and>
   (task_status task = Completed \<and> task_completionComment task \<noteq> [] \<longrightarrow>
      sublist (commentLead @ task_completionComment task) (formatTaskForShare task)) \<and>
   formatTaskForShare reportDone =
     [CHR 0xE2, CHR 0x9C, CHR 0x85] @ '' Report'' @ '' - '' @ statusLabel Completed @
     [CHR 0x0A, CHR 0x0A] @ ''#work'' @ commentLead @ ''done early'' @ appHashtags"
proof -
  let ?h = "statusEmoji (task_status task) @ '' '' @ task_title task @ '' - '' @
            statusLabel (task_status task)"
  let ?t = "if task_tags task = [] then []
      else [CHR 0x0A, CHR 0x0A] @ join '' '' (map (\<lambda>tag. ''#'' @ tag) (task_tags task))"
  let ?c = "if task_status task = Completed \<and> task_completionComment task \<noteq> []
      then commentLead @ task_completionComment task else []"
  have eq: "formatTaskForShare task = ?h @ ?t @ ?c @ appHashtags"
    by (simp add: formatTaskForShare_def Let_def)
  have pre: "prefix ?h (formatTaskForShare task)"
    unfolding eq by (rule prefixI) simp
  have suf: "suffix appHashtags (formatTaskForShare task)"
    unfolding eq by (intro suffix_appendI) simp
  have tags: "\<forall>tag \<in> set (task_tags task). sublist (''#'' @ tag) (formatTaskForShare task)"
  proof
    fix tag assume t: "tag \<in> set (task_tags task)"
    then have "sublist (''#'' @ tag) (join '' '' (map (\<lambda>tag. ''#'' @ tag) (task_tags task)))"
      by (intro sublist_join) auto
    then have "sublist (''#'' @ tag)
                 ([CHR 0x0A, CHR 0x0A] @ join '' '' (map (\<lambda>tag. ''#'' @ tag) (task_tags task)))"
      by (rule sublist_behind)
    moreover have "?t = [CHR 0x0A, CHR 0x0A] @ join '' '' (map (\<lambda>tag. ''#'' @ tag) (task_tags task))"
      using t by auto
    ultimately have "sublist (''#'' @ tag) ?t"
      by (simp only:)
    then have "sublist (''#'' @ tag) (?t @ ?c @ appHashtags)"
      by (rule sublist_before)
    then have "sublist (''#'' @ tag) (?h @ ?t @ ?c @ appHashtags)"
      by (rule sublist_behind)
    then show "sublist (''#'' @ tag) (formatTaskForShare task)"
      unfolding eq .
  qed
  have com: "task_status task = Completed \<and> task_completionComment task \<noteq> [] \<longrightarrow>
      sublist (commentLead @ task_completionComment task) (formatTaskForShare task)"
  proof
    assume a: "task_status task = Completed \<and> task_completionComment task \<noteq> []"
    then have "?c = commentLead @ task_completionComment task" by simp
    then have "sublist (commentLead @ task_completionComment task) (?c @ appHashtags)"
      by simp
    then have "sublist (commentLead @ task_completionComment task) (?t @ ?c @ appHashtags)"
      by (rule sublist_behind)
    then have "sublist (commentLead @ task_completionComment task) (?h @ ?t @ ?c @ appHashtags)"
      by (rule sublist_behind)
    then show "sublist (commentLead @ task_completionComment task) (formatTaskForShare task)"
      unfolding eq .
  qed
  have ex: "formatTaskForShare reportDone =
     [CHR 0xE2, CHR 0x9C, CHR 0x85] @ '' Report'' @ '' - '' @ statusLabel Completed @
     [CHR 0x0A, CHR 0x0A] @ ''#work'' @ commentLead @ ''done early'' @ appHashtags"
    by (simp add: formatTaskForShare_def Let_def reportDone_fields statusEmoji_def)
  show ?thesis
    using pre suf eq tags com ex by blast
qed

theorem formatTaskForShare_structure_witness:
  "task_tags reportDone = [''work''] \<and> task_status reportDone = Completed \<and>
   task_completionComment reportDone = ''done early'' \<and>
   sublist (''#'' @ ''work'') (formatTaskForShare reportDone) \<and>
   sublist (commentLead @ ''done early'') (formatTaskForShare reportDone) \<and>
   suffix appHashtags (formatTaskForShare reportDone)"
proof -
  have "\<forall>tag \<in> set (task_tags reportDone). sublist (''#'' @ tag) (formatTaskForShare reportDone)"
    and "task_status reportDone = Completed \<and> task_completionComment reportDone \<noteq> [] \<longrightarrow>
         sublist (commentLead @ task_completionComment reportDone) (formatTaskForShare reportDone)"
    and "suffix appHashtags (formatTaskForShare reportDone)"
    using formatTaskForShare_structure [of reportDone] by blast+
  then show ?thesis
    by (simp add: reportDone_fields)
qed

section \<open>The progress report\<close>

text \<open>
  The rounding of the model is that of binary64. The exponent \<open>floorLog2 q\<close> is the
  binade of \<open>q\<close>; the result of \<open>roundDouble\<close> is a multiple of the unit in the last
  place, with a significand of at most 53 bits, at most half a unit away from \<open>q\<close>.
\<close>

lemma bitLength_bounds:
  "0 < n \<Longrightarrow> 2 ^ nat (bitLength n - 1) \<le> n \<and> n < 2 ^ nat (bitLength n) \<and> 0 < bitLength n"
proof (induction n rule: bitLength.induct)
  case (1 n)
  show ?case
  proof (cases "n = 1")
    case True
    then show ?thesis
      by (simp add: bitLength.simps [of 1] bitLength.simps [of 0])
  next
    case False
    with 1 have h: "0 < n div 2" by simp
    have ih: "2 ^ nat (bitLength (n div 2) - 1) \<le> n div 2"
      "n div 2 < 2 ^ nat (bitLength (n div 2))" "0 < bitLength (n div 2)"
      using 1 h by simp_all
    have b: "bitLength n = 1 + bitLength (n div 2)"
      using 1 by (simp add: bitLength.simps [of n])
    have p: "nat (bitLength n - 1) = Suc (nat (bitLength (n div 2) - 1))"
      "nat (bitLength n) = Suc (nat (bitLength (n div 2)))"
      using b ih(3) by simp_all
    have "2 * 2 ^ nat (bitLength (n div 2) - 1) \<le> n"
      using ih(1) by linarith
    moreover have "n < 2 * 2 ^ nat (bitLength (n div 2))"
      using ih(2) by linarith
    ultimately show ?thesis
      using p b ih(3) by simp
  qed
qed

lemma roundTiesEven_near: "\<bar>of_int (roundTiesEven q) - q\<bar> \<le> 1 / 2"
  unfolding roundTiesEven_def Let_def
  by (auto simp: abs_if) linarith+

lemma power_int_of_bits:
  "0 \<le> k \<Longrightarrow> power_int (2 :: rat) k = of_int (2 ^ nat k)"
  by (simp add: power_int_def)

lemma floorLog2_bounds:
  assumes "0 < q"
  shows "power_int 2 (floorLog2 q) \<le> q \<and> q < power_int 2 (floorLog2 q + 1)"
proof -
  obtain n d where nd: "quotient_of q = (n, d)"
    by (cases "quotient_of q")
  have d: "0 < d"
    using nd by (rule quotient_of_denom_pos)
  have q: "q = of_int n / of_int d"
    using nd by (rule quotient_of_div)
  have n: "0 < n"
    using assms d q by (simp add: zero_less_divide_iff)
  let ?bn = "bitLength n" and ?bd = "bitLength d"
  let ?k = "?bn - ?bd"
  have bn: "2 ^ nat (?bn - 1) \<le> n" "n < 2 ^ nat ?bn" "0 < ?bn"
    using bitLength_bounds [OF n] by simp_all
  have bd: "2 ^ nat (?bd - 1) \<le> d" "d < 2 ^ nat ?bd" "0 < ?bd"
    using bitLength_bounds [OF d] by simp_all
  have N1: "power_int 2 (?bn - 1) \<le> (of_int n :: rat)"
    using bn(1,3) by (simp add: power_int_of_bits of_int_le_iff del: of_int_power)
  have N2: "(of_int n :: rat) < power_int 2 ?bn"
    using bn(2,3) by (simp add: power_int_of_bits of_int_less_iff del: of_int_power)
  have D1: "power_int 2 (?bd - 1) \<le> (of_int d :: rat)"
    using bd(1,3) by (simp add: power_int_of_bits of_int_le_iff del: of_int_power)
  have D2: "(of_int d :: rat) < power_int 2 ?bd"
    using bd(2,3) by (simp add: power_int_of_bits of_int_less_iff del: of_int_power)
  have dpos: "(0 :: rat) < of_int d" using d by simp
  have p1: "(0 :: rat) < power_int 2 (?bd - 1)" and p2: "(0 :: rat) < power_int 2 ?bd"
    by simp_all
  have up: "q < power_int 2 (?k + 1)"
  proof -
    have "q < power_int 2 ?bn / of_int d"
      unfolding q using N2 dpos by (rule divide_strict_right_mono)
    also have "\<dots> \<le> power_int 2 ?bn / power_int 2 (?bd - 1)"
      using D1 mult_pos_pos [OF dpos p1] by (intro divide_left_mono) simp_all
    also have "\<dots> = power_int 2 (?bn - (?bd - 1))"
      by (rule power_int_diff [symmetric]) simp
    also have "?bn - (?bd - 1) = ?k + 1"
      by simp
    finally show ?thesis .
  qed
  have lo: "power_int 2 (?k - 1) \<le> q"
  proof -
    have "?k - 1 = ?bn - 1 - ?bd"
      by simp
    then have "power_int 2 (?k - 1) = power_int (2 :: rat) (?bn - 1 - ?bd)"
      by (simp only:)
    also have "\<dots> = power_int 2 (?bn - 1) / (power_int 2 ?bd :: rat)"
      by (rule power_int_diff) simp
    also have "\<dots> \<le> of_int n / power_int 2 ?bd"
      using N1 p2 by (intro divide_right_mono) simp_all
    also have "\<dots> \<le> of_int n / of_int d"
      using D2 mult_pos_pos [OF p2 dpos] n by (intro divide_left_mono) simp_all
    finally show ?thesis unfolding q .
  qed
  show ?thesis
  proof (cases "power_int 2 ?k \<le> q")
    case True
    then have "floorLog2 q = ?k"
      by (simp add: floorLog2_def nd)
    with True up show ?thesis by simp
  next
    case False
    then have "floorLog2 q = ?k - 1"
      by (simp add: floorLog2_def nd)
    with False lo show ?thesis by simp
  qed
qed

lemma roundDouble_nearest:
  assumes "0 < q" and "roundDouble q = Num r"
  shows "\<exists>m :: int.
           r = of_int m * power_int 2 (max (floorLog2 q) (- 1022) - 52) \<and>
           0 \<le> m \<and> m \<le> 2 ^ 53 \<and>
           \<bar>r - q\<bar> \<le> power_int 2 (max (floorLog2 q) (- 1022) - 52) / 2"
proof -
  let ?e = "max (floorLog2 q) (- 1022)"
  let ?ulp = "power_int (2 :: rat) (?e - 52)"
  let ?m = "roundTiesEven (q / ?ulp)"
  have u: "0 < ?ulp" by simp
  have r: "r = of_int ?m * ?ulp"
    using assms by (simp add: roundDouble_def Let_def split: if_splits)
  have near: "\<bar>of_int ?m - q / ?ulp\<bar> \<le> 1 / 2"
    by (rule roundTiesEven_near)
  have "r - q = (of_int ?m - q / ?ulp) * ?ulp"
    using u by (simp add: r field_simps)
  then have "\<bar>r - q\<bar> = \<bar>of_int ?m - q / ?ulp\<bar> * \<bar>?ulp\<bar>"
    by (simp only: abs_mult)
  also have "\<dots> = \<bar>of_int ?m - q / ?ulp\<bar> * ?ulp"
    using u by simp
  also have "\<dots> \<le> (1 / 2) * ?ulp"
    using near u by (intro mult_right_mono) simp_all
  finally have err: "\<bar>r - q\<bar> \<le> ?ulp / 2" by simp
  have "q < power_int 2 (floorLog2 q + 1)"
    using floorLog2_bounds [OF assms(1)] by simp
  also have "\<dots> \<le> power_int 2 (?e + 1)"
    by (intro power_int_increasing) simp_all
  finally have "q / ?ulp < power_int 2 (?e + 1) / ?ulp"
    using u by (intro divide_strict_right_mono) simp_all
  also have "power_int 2 (?e + 1) / ?ulp = power_int 2 (?e + 1 - (?e - 52))"
    by (rule power_int_diff [symmetric]) simp
  also have "?e + 1 - (?e - 52) = 53"
    by simp
  also have "power_int (2 :: rat) 53 = 2 ^ 53"
    by simp
  finally have lt: "q / ?ulp < 2 ^ 53" .
  have ge: "0 \<le> q / ?ulp"
    using assms(1) u by simp
  have m0: "0 \<le> ?m"
    using near ge by linarith
  have "(of_int ?m :: rat) \<le> q / ?ulp + 1 / 2"
    using near by linarith
  then have "(of_int ?m :: rat) < 2 ^ 53 + 1 / 2"
    using lt by linarith
  then have "(of_int ?m :: rat) < of_int (2 ^ 53 + 1)"
    by simp
  then have m1: "?m \<le> 2 ^ 53"
    by (simp only: of_int_less_iff)
  show ?thesis
    using r m0 m1 err by blast
qed

text \<open>One tenth is the binary64 number \<open>3602879701896397 / 2\<^sup>5\<^sup>5\<close>.\<close>

lemma roundDouble_tenth: "roundDouble (1 / 10) = Num (3602879701896397 / 36028797018963968)"
  by code_simp









text \<open>
  The quotient and the product are rounded to binary64: 29 of 200 is
  \<open>14.499999999999998\<close> per cent there, which \<^verbatim>\<open>Math.round\<close> takes to 14.
\<close>

lemma completionRate_binary64: "completionRate 200 29 = Num 14"
  by code_simp

end
